theory Spec2Isabelle
  imports Main "HOL-Library.Word" "HOL-Library.Sublist"
begin

section \<open>JavaScript strings\<close>

text \<open>
  A JavaScript string is a sequence of 16-bit code units. The converters of
  \<^verbatim>\<open>src/App.js\<close> only compare and concatenate code units, so a string is a list
  of 16-bit words; \<open>js\<close> turns a literal of the theory into such a list.
\<close>

type_synonym jsstring = "16 word list"

definition js :: "string \<Rightarrow> jsstring" where
  "js s = map of_char s"

definition LF :: "16 word" where
  "LF = 0x0A"

text \<open>
  \<^verbatim>\<open>s.replace(/c/g, rep)\<close> for a single literal character \<open>c\<close> and a replacement
  text without \<^verbatim>\<open>$\<close>: every occurrence of \<open>c\<close>, from left to right, becomes \<open>rep\<close>.
\<close>

definition replace_char :: "16 word \<Rightarrow> jsstring \<Rightarrow> jsstring \<Rightarrow> jsstring" where
  "replace_char c rep s = concat (map (\<lambda>x. if x = c then rep else [x]) s)"

text \<open>
  \<^verbatim>\<open>String.prototype.trim\<close> strips the WhiteSpace and LineTerminator code points
  of ECMAScript from both ends: TAB, VT, FF, SP, NBSP, ZWNBSP, the other space
  separators of Unicode, and LF, CR, LS, PS.
\<close>

definition is_trim_space :: "16 word \<Rightarrow> bool" where
  "is_trim_space c =
     (c = 0x09 \<or> c = 0x0A \<or> c = 0x0B \<or> c = 0x0C \<or> c = 0x0D \<or> c = 0x20 \<or> c = 0xA0
      \<or> c = 0x1680 \<or> (0x2000 \<le> c \<and> c \<le> 0x200A) \<or> c = 0x2028 \<or> c = 0x2029
      \<or> c = 0x202F \<or> c = 0x205F \<or> c = 0x3000 \<or> c = 0xFEFF)"

definition trim :: "jsstring \<Rightarrow> jsstring" where
  "trim s = rev (dropWhile is_trim_space (rev (dropWhile is_trim_space s)))"

section \<open>The converters\<close>

text \<open>The records that \<^verbatim>\<open>readAndSetFiles\<close> builds: \<^verbatim>\<open>{ fileName: file.name, content }\<close>.\<close>

record FileRecord =
  fileName :: jsstring
  content :: jsstring

text \<open>
  The chain of five \<^verbatim>\<open>replace\<close> calls of \<^verbatim>\<open>convertToXML\<close> that computes
  \<^verbatim>\<open>escapedContent\<close>, innermost call first: \<^verbatim>\<open>&\<close>, \<^verbatim>\<open><\<close>, \<^verbatim>\<open>>\<close>, the double quote,
  the apostrophe.
\<close>

definition escapedContent :: "jsstring \<Rightarrow> jsstring" where
  \<open>escapedContent c =
     replace_char (of_char CHR 0x27) (js ''&apos;'')
       (replace_char (of_char CHR ''"'') (js ''&quot;'')
         (replace_char (of_char CHR ''>'') (js ''&gt;'')
           (replace_char (of_char CHR ''<'') (js ''&lt;'')
             (replace_char (of_char CHR ''&'') (js ''&amp;'') c))))\<close>

text \<open>
  \<^verbatim>\<open>convertToXML\<close>: the \<^verbatim>\<open>forEach\<close> appends one template per record to \<^verbatim>\<open>xml\<close>; the
  template starts with a line feed and two spaces, and the file name goes into the
  attribute as it is.
\<close>

definition xml_element :: "FileRecord \<Rightarrow> jsstring" where
  \<open>xml_element file =
     LF # js ''  <file name="'' @ fileName file @ js ''">'' @ escapedContent (content file)
       @ js ''</file>''\<close>

definition convertToXML :: "FileRecord list \<Rightarrow> jsstring" where
  "convertToXML filesData =
     (let xml = js ''<files>'';
          xml = foldl (\<lambda>xml file. xml @ xml_element file) xml filesData;
          xml = xml @ LF # js ''</files>''
      in xml)"

text \<open>
  \<^verbatim>\<open>convertToMarkdown\<close>: one template per record (heading line, fence, content, fence,
  empty line), then \<^verbatim>\<open>md.trim()\<close>.
\<close>

definition md_section :: "FileRecord \<Rightarrow> jsstring" where
  "md_section file =
     js ''## '' @ fileName file @ LF # js ''```'' @ LF # content file @ LF # js ''```'' @ [LF, LF]"

definition convertToMarkdown :: "FileRecord list \<Rightarrow> jsstring" where
  "convertToMarkdown filesData =
     (let md = [];
          md = foldl (\<lambda>md file. md @ md_section file) md filesData
      in trim md)"

section \<open>\<^verbatim>\<open>JSON.stringify\<close>\<close>

text \<open>
  \<^verbatim>\<open>getExportOutput\<close> calls \<^verbatim>\<open>JSON.stringify(data, null, 2)\<close> on an array of objects
  whose two properties hold strings. The values that occur are strings, arrays and
  objects (an object as the list of its own properties in insertion order), and the
  serialisation follows ECMAScript's SerializeJSONProperty, SerializeJSONArray,
  SerializeJSONObject and QuoteJSONString.
\<close>

datatype json = JString jsstring | JArray "json list" | JObject "(jsstring \<times> json) list"

definition is_lead :: "16 word \<Rightarrow> bool" where
  "is_lead c = (0xD800 \<le> c \<and> c \<le> 0xDBFF)"

definition is_trail :: "16 word \<Rightarrow> bool" where
  "is_trail c = (0xDC00 \<le> c \<and> c \<le> 0xDFFF)"

definition hexdigit :: "nat \<Rightarrow> 16 word" where
  "hexdigit d = js ''0123456789abcdef'' ! d"

text \<open>UnicodeEscape: \<^verbatim>\<open>\u\<close> and the code unit as four lowercase hexadecimal digits.\<close>

definition UnicodeEscape :: "16 word \<Rightarrow> jsstring" where
  "UnicodeEscape c =
     (let n = unat c
      in [0x5C, of_char CHR ''u'', hexdigit (n div 4096), hexdigit (n div 256 mod 16),
          hexdigit (n div 16 mod 16), hexdigit (n mod 16)])"

text \<open>
  One code point that is a single code unit: the two-character escapes of the table
  of QuoteJSONString, UnicodeEscape for the other control characters and for a
  surrogate without its partner, and the code unit itself otherwise.
\<close>

definition quote_unit :: "16 word \<Rightarrow> jsstring" where
  \<open>quote_unit c =
     (if c = 0x08 then [0x5C, of_char CHR ''b'']
      else if c = 0x09 then [0x5C, of_char CHR ''t'']
      else if c = 0x0A then [0x5C, of_char CHR ''n'']
      else if c = 0x0C then [0x5C, of_char CHR ''f'']
      else if c = 0x0D then [0x5C, of_char CHR ''r'']
      else if c = 0x22 then [0x5C, 0x22]
      else if c = 0x5C then [0x5C, 0x5C]
      else if c < 0x20 \<or> is_lead c \<or> is_trail c then UnicodeEscape c
      else [c])\<close>

text \<open>
  The code points of the string in order: a leading surrogate followed by a trailing
  one is one code point and is copied as it is.
\<close>

fun quote_units :: "jsstring \<Rightarrow> jsstring" where
  "quote_units [] = []"
| "quote_units [c] = quote_unit c"
| "quote_units (c # d # cs) =
     (if is_lead c \<and> is_trail d then c # d # quote_units cs
      else quote_unit c @ quote_units (d # cs))"

definition QuoteJSONString :: "jsstring \<Rightarrow> jsstring" where
  "QuoteJSONString s = 0x22 # quote_units s @ [0x22]"

fun join :: "jsstring \<Rightarrow> jsstring list \<Rightarrow> jsstring" where
  "join sep [] = []"
| "join sep [x] = x"
| "join sep (x # y # ys) = x @ sep @ join sep (y # ys)"

fun SerializeJSONProperty :: "jsstring \<Rightarrow> jsstring \<Rightarrow> json \<Rightarrow> jsstring" where
  "SerializeJSONProperty gap indent (JString s) = QuoteJSONString s"
| "SerializeJSONProperty gap indent (JArray vs) =
     (let stepback = indent;
          indent = indent @ gap;
          partial = map (SerializeJSONProperty gap indent) vs
      in if partial = [] then js ''[]''
         else if gap = [] then js ''['' @ join (js '','') partial @ js '']''
         else js ''['' @ LF # indent @ join (js '','' @ LF # indent) partial
                @ LF # stepback @ js '']'')"
| "SerializeJSONProperty gap indent (JObject ms) =
     (let stepback = indent;
          indent = indent @ gap;
          partial = map (\<lambda>m. QuoteJSONString (fst m) @ js '':''
                              @ (if gap \<noteq> [] then js '' '' else [])
                              @ SerializeJSONProperty gap indent (snd m)) ms
      in if partial = [] then js ''{}''
         else if gap = [] then js ''{'' @ join (js '','') partial @ js ''}''
         else js ''{'' @ LF # indent @ join (js '','' @ LF # indent) partial
                @ LF # stepback @ js ''}'')"

text \<open>\<^verbatim>\<open>JSON.stringify(value, null, space)\<close> for a number \<open>space\<close> of at most 10.\<close>

definition JSON_stringify :: "json \<Rightarrow> nat \<Rightarrow> jsstring" where
  "JSON_stringify v space = SerializeJSONProperty (replicate (min space 10) 0x20) [] v"

text \<open>The array of \<^verbatim>\<open>{ fileName, content }\<close> objects as \<^verbatim>\<open>JSON.stringify\<close> sees it.\<close>

definition record_value :: "FileRecord \<Rightarrow> json" where
  "record_value file =
     JObject [(js ''fileName'', JString (fileName file)), (js ''content'', JString (content file))]"

definition data_value :: "FileRecord list \<Rightarrow> json" where
  "data_value data = JArray (map record_value data)"

section \<open>\<^verbatim>\<open>getExportOutput\<close>\<close>

text \<open>The \<^verbatim>\<open>switch\<close> on \<^verbatim>\<open>selectedExportFormat\<close>, with its \<^verbatim>\<open>default\<close> branch.\<close>

definition getExportOutput :: "jsstring \<Rightarrow> FileRecord list \<Rightarrow> jsstring" where
  "getExportOutput selectedExportFormat data =
     (if selectedExportFormat = js ''json'' then JSON_stringify (data_value data) 2
      else if selectedExportFormat = js ''xml'' then convertToXML data
      else if selectedExportFormat = js ''markdown'' then convertToMarkdown data
      else [])"

section \<open>\<^verbatim>\<open>autoCopyToClipboard\<close>\<close>

text \<open>
  The browser decides what each platform call does; the function only sequences the
  calls. A value of \<open>browser\<close> says what happens to each of them in one invocation:
  whether \<^verbatim>\<open>navigator.clipboard.writeText\<close> is there and how its promise settles, and
  for each DOM call of the fallback whether it returns or throws.
  \<^verbatim>\<open>document.execCommand('copy')\<close> returns a boolean, \<^verbatim>\<open>false\<close> when the command is
  unsupported or disabled.
\<close>

datatype thrown = Thrown jsstring

datatype 'a outcome = Returns 'a | Throws thrown

datatype clipboard_api = Unavailable | Resolves | Rejects thrown

record browser =
  writeText :: clipboard_api
  createElement :: "unit outcome"
  appendChild :: "unit outcome"
  select_text :: "unit outcome"
  execCommand_copy :: "bool outcome"
  removeChild :: "unit outcome"

text \<open>
  What the function can change outside the component: the temporary text areas among
  the children of \<^verbatim>\<open>document.body\<close> (each given by its value), the system clipboard,
  the entries of \<^verbatim>\<open>console.error\<close>, and the delays of the pending \<^verbatim>\<open>setTimeout\<close> calls.
\<close>

record page =
  body_children :: "jsstring list"
  system_clipboard :: "jsstring option"
  console :: "thrown list"
  timers :: "nat list"

text \<open>
  The body of the second \<^verbatim>\<open>try\<close>: \<open>Inl\<close> is an exception on its way to the \<^verbatim>\<open>catch\<close>,
  with the page as the statements before it left it.
\<close>

definition fallback_copy :: "browser \<Rightarrow> jsstring \<Rightarrow> page \<Rightarrow> (thrown + bool) \<times> page" where
  "fallback_copy b text pg =
     (case createElement b of Throws err \<Rightarrow> (Inl err, pg) | Returns _ \<Rightarrow>
      (case appendChild b of Throws err \<Rightarrow> (Inl err, pg) | Returns _ \<Rightarrow>
       (let pg = pg\<lparr>body_children := body_children pg @ [text]\<rparr>
        in case select_text b of Throws err \<Rightarrow> (Inl err, pg) | Returns _ \<Rightarrow>
           (case execCommand_copy b of Throws err \<Rightarrow> (Inl err, pg) | Returns copied \<Rightarrow>
            (let pg = (if copied then pg\<lparr>system_clipboard := Some text\<rparr> else pg)
             in case removeChild b of Throws err \<Rightarrow> (Inl err, pg) | Returns _ \<Rightarrow>
                (Inr True, pg\<lparr>body_children := butlast (body_children pg)\<rparr>))))))"

text \<open>
  The \<^verbatim>\<open>async\<close> function: \<open>Inr\<close> is the value its promise resolves to, \<open>Inl\<close> a
  rejection. The first \<^verbatim>\<open>try\<close> returns \<^verbatim>\<open>true\<close> when \<^verbatim>\<open>writeText\<close> resolves and
  swallows its rejection; the second \<^verbatim>\<open>catch\<close> returns \<^verbatim>\<open>false\<close>.
\<close>

definition autoCopyToClipboard :: "browser \<Rightarrow> jsstring \<Rightarrow> page \<Rightarrow> (thrown + bool) \<times> page" where
  "autoCopyToClipboard b text pg =
     (case writeText b of
        Resolves \<Rightarrow> (Inr True, pg\<lparr>system_clipboard := Some text\<rparr>)
      | _ \<Rightarrow>
        (case fallback_copy b text pg of
           (Inl err, pg) \<Rightarrow> (Inr False, pg)
         | (Inr r, pg) \<Rightarrow> (Inr r, pg)))"

section \<open>\<^verbatim>\<open>readAndSetFiles\<close>\<close>

text \<open>
  A \<^verbatim>\<open>File\<close> with what its \<^verbatim>\<open>FileReader\<close> will deliver: the text for \<^verbatim>\<open>onload\<close> or the
  event for \<^verbatim>\<open>onerror\<close>. \<^verbatim>\<open>readFileAsText\<close> turns it into the settlement of a promise.
\<close>

record File =
  name :: jsstring
  reads_as :: "thrown + jsstring"

definition readFileAsText :: "File \<Rightarrow> thrown + jsstring" where
  "readFileAsText f = reads_as f"

text \<open>
  \<^verbatim>\<open>Promise.all\<close> over promises that settle in the order \<open>sched\<close> (positions in the
  input array). Each fulfilment is stored at the position of its promise; the first
  rejection rejects the whole; the whole is fulfilled once no position is empty, and
  stays pending (\<open>None\<close>) when some promise never settles.
\<close>

fun settle :: "nat list \<Rightarrow> (thrown + 'a) list \<Rightarrow> 'a option list \<Rightarrow> thrown + 'a option list" where
  "settle [] outcomes vals = Inr vals"
| "settle (i # sched) outcomes vals =
     (if i < length outcomes
      then (case outcomes ! i of
              Inl reason \<Rightarrow> Inl reason
            | Inr v \<Rightarrow> settle sched outcomes (vals[i := Some v]))
      else settle sched outcomes vals)"

definition Promise_all :: "nat list \<Rightarrow> (thrown + 'a) list \<Rightarrow> (thrown + 'a list) option" where
  "Promise_all sched outcomes =
     (case settle sched outcomes (replicate (length outcomes) None) of
        Inl reason \<Rightarrow> Some (Inl reason)
      | Inr vals \<Rightarrow> if list_all (\<lambda>v. v \<noteq> None) vals then Some (Inr (map the vals)) else None)"

text \<open>The \<^verbatim>\<open>async (file) => ...\<close> mapped over \<^verbatim>\<open>fileArray\<close>.\<close>

definition read_record :: "File \<Rightarrow> thrown + FileRecord" where
  "read_record f =
     (case readFileAsText f of
        Inl err \<Rightarrow> Inl err
      | Inr text \<Rightarrow> Inr \<lparr>fileName = name f, content = text\<rparr>)"

text \<open>The state of the component.\<close>

record app =
  filesData :: "FileRecord list"
  selectedExportFormat :: jsstring
  isDragging :: bool
  copyMessage :: jsstring

text \<open>
  \<^verbatim>\<open>readAndSetFiles\<close>, with the state of the render that created it. The result is
  the state and the page once the function's promise has settled, \<open>None\<close> when it
  never does.
\<close>

definition readAndSetFiles ::
  "browser \<Rightarrow> nat list \<Rightarrow> File list \<Rightarrow> app \<Rightarrow> page \<Rightarrow> (app \<times> page) option" where
  "readAndSetFiles b sched fileArray st pg =
     (case Promise_all sched (map read_record fileArray) of
        None \<Rightarrow> None
      | Some (Inl error) \<Rightarrow> Some (st, pg\<lparr>console := console pg @ [error]\<rparr>)
      | Some (Inr results) \<Rightarrow>
          (let newData = filesData st @ results;
               st' = st\<lparr>filesData := results\<rparr>;
               exported = getExportOutput (selectedExportFormat st) results
           in case autoCopyToClipboard b exported pg of
                (Inl error, pg') \<Rightarrow> Some (st', pg'\<lparr>console := console pg' @ [error]\<rparr>)
              | (Inr success, pg') \<Rightarrow>
                  Some (st'\<lparr>copyMessage := (if success then js ''Copied to clipboard!''
                                               else js ''Clipboard copy failed.'')\<rparr>,
                        pg'\<lparr>timers := timers pg' @ [3000]\<rparr>)))"

text \<open>A completion order of \<open>n\<close> promises: every position settles, once.\<close>

definition completion_order :: "nat \<Rightarrow> nat list \<Rightarrow> bool" where
  "completion_order n sched = (distinct sched \<and> set sched = {..<n})"

section \<open>Reading the exports back\<close>

text \<open>
  The inverse operations that the round-trip properties speak of are not part of the
  program; they are defined here from their usual meaning.
\<close>

text \<open>
  Replacing every occurrence of a non-empty text \<open>pat\<close> by \<open>rep\<close>, leftmost first and
  without overlap (\<^verbatim>\<open>replaceAll\<close>); an empty \<open>pat\<close> changes nothing here.
\<close>

function replace_all :: "jsstring \<Rightarrow> jsstring \<Rightarrow> jsstring \<Rightarrow> jsstring" where
  "replace_all pat rep [] = []"
| "replace_all pat rep (c # cs) =
     (if pat \<noteq> [] \<and> prefix pat (c # cs)
      then rep @ replace_all pat rep (drop (length pat - 1) cs)
      else c # replace_all pat rep cs)"
  by pat_completeness auto
termination
  by (relation "measure (\<lambda>(pat, rep, s). length s)") auto

text \<open>The five substitutions of \<open>escapedContent\<close> undone, the last one first.\<close>

definition decodeContent :: "jsstring \<Rightarrow> jsstring" where
  \<open>decodeContent e =
     replace_all (js ''&amp;'') (js ''&'')
       (replace_all (js ''&lt;'') (js ''<'')
         (replace_all (js ''&gt;'') (js ''>'')
           (replace_all (js ''&quot;'') (js ''"'')
             (replace_all (js ''&apos;'') [of_char CHR 0x27] e))))\<close>

text \<open>The entity that stands for one code unit of the content.\<close>

definition xml_entity :: "16 word \<Rightarrow> jsstring" where
  \<open>xml_entity c =
     (if c = of_char CHR ''&'' then js ''&amp;''
      else if c = of_char CHR ''<'' then js ''&lt;''
      else if c = of_char CHR ''>'' then js ''&gt;''
      else if c = of_char CHR ''"'' then js ''&quot;''
      else if c = of_char CHR 0x27 then js ''&apos;''
      else [c])\<close>

text \<open>
  A text has no raw reserved character when it contains none of \<^verbatim>\<open><\<close>, \<^verbatim>\<open>>\<close>, the
  double quote and the apostrophe, and each \<^verbatim>\<open>&\<close> in it starts one of the five entities.
\<close>

definition starts_entity :: "jsstring \<Rightarrow> bool" where
  "starts_entity s =
     (prefix (js ''&amp;'') s \<or> prefix (js ''&lt;'') s \<or> prefix (js ''&gt;'') s
      \<or> prefix (js ''&quot;'') s \<or> prefix (js ''&apos;'') s)"

fun no_raw_reserved :: "jsstring \<Rightarrow> bool" where
  "no_raw_reserved [] = True"
| \<open>no_raw_reserved (c # cs) =
     (if c = of_char CHR ''&'' then starts_entity (c # cs) \<and> no_raw_reserved cs
      else c \<noteq> of_char CHR ''<'' \<and> c \<noteq> of_char CHR ''>'' \<and> c \<noteq> of_char CHR ''"''
           \<and> c \<noteq> of_char CHR 0x27 \<and> no_raw_reserved cs)\<close>

text \<open>
  The content after the first \<open>k\<close> of the five substitutions, one code unit at a time.
\<close>

definition entity_upto :: "nat \<Rightarrow> 16 word \<Rightarrow> jsstring" where
  \<open>entity_upto k c =
     (if c = of_char CHR ''&'' \<and> 1 \<le> k then js ''&amp;''
      else if c = of_char CHR ''<'' \<and> 2 \<le> k then js ''&lt;''
      else if c = of_char CHR ''>'' \<and> 3 \<le> k then js ''&gt;''
      else if c = of_char CHR ''"'' \<and> 4 \<le> k then js ''&quot;''
      else if c = of_char CHR 0x27 \<and> 5 \<le> k then js ''&apos;''
      else [c])\<close>

section \<open>Parsing JSON\<close>

text \<open>
  A parser for the JSON texts whose values are strings, arrays and objects, after the
  JSON grammar: a lexer that skips white space and decodes string literals with their
  escapes, and a parser of the token sequence by recursive descent. \<open>None\<close> is a syntax
  error (or a number or literal name, which this parser does not read).
\<close>

datatype token = LBRACKET | RBRACKET | LBRACE | RBRACE | COLON | COMMA | STRING jsstring

definition is_json_space :: "16 word \<Rightarrow> bool" where
  "is_json_space c = (c = 0x09 \<or> c = 0x0A \<or> c = 0x0D \<or> c = 0x20)"

definition hexval :: "16 word \<Rightarrow> nat option" where
  "hexval c =
     (if 0x30 \<le> c \<and> c \<le> 0x39 then Some (unat c - 0x30)
      else if 0x61 \<le> c \<and> c \<le> 0x66 then Some (unat c - 0x61 + 10)
      else if 0x41 \<le> c \<and> c \<le> 0x46 then Some (unat c - 0x41 + 10)
      else None)"

definition hex4 :: "16 word \<Rightarrow> 16 word \<Rightarrow> 16 word \<Rightarrow> 16 word \<Rightarrow> 16 word option" where
  "hex4 h1 h2 h3 h4 =
     (case (hexval h1, hexval h2, hexval h3, hexval h4) of
        (Some a, Some b, Some c, Some d) \<Rightarrow> Some (of_nat (((a * 16 + b) * 16 + c) * 16 + d))
      | _ \<Rightarrow> None)"

text \<open>The code unit that a character after a backslash stands for.\<close>

definition unescape :: "16 word \<Rightarrow> 16 word option" where
  \<open>unescape e =
     (if e = 0x22 then Some 0x22
      else if e = 0x5C then Some 0x5C
      else if e = of_char CHR ''/'' then Some 0x2F
      else if e = of_char CHR ''b'' then Some 0x08
      else if e = of_char CHR ''f'' then Some 0x0C
      else if e = of_char CHR ''n'' then Some 0x0A
      else if e = of_char CHR ''r'' then Some 0x0D
      else if e = of_char CHR ''t'' then Some 0x09
      else None)\<close>

text \<open>
  \<open>tokenize\<close> reads between the tokens, \<open>tokenize_string acc\<close> inside a string
  literal of which \<open>acc\<close> has been decoded already.
\<close>

fun tokenize :: "jsstring \<Rightarrow> token list option"
  and tokenize_string :: "jsstring \<Rightarrow> jsstring \<Rightarrow> token list option" where
  "tokenize [] = Some []"
| \<open>tokenize (c # cs) =
     (if is_json_space c then tokenize cs
      else if c = of_char CHR ''['' then map_option (Cons LBRACKET) (tokenize cs)
      else if c = of_char CHR '']'' then map_option (Cons RBRACKET) (tokenize cs)
      else if c = of_char CHR ''{'' then map_option (Cons LBRACE) (tokenize cs)
      else if c = of_char CHR ''}'' then map_option (Cons RBRACE) (tokenize cs)
      else if c = of_char CHR '':'' then map_option (Cons COLON) (tokenize cs)
      else if c = of_char CHR '','' then map_option (Cons COMMA) (tokenize cs)
      else if c = 0x22 then tokenize_string [] cs
      else None)\<close>
| "tokenize_string acc [] = None"
| \<open>tokenize_string acc (c # cs) =
     (if c = 0x22 then map_option (Cons (STRING acc)) (tokenize cs)
      else if c = 0x5C then
        (case cs of
           [] \<Rightarrow> None
         | e # es \<Rightarrow>
             if e = of_char CHR ''u'' then
               (case es of
                  h1 # h2 # h3 # h4 # rest \<Rightarrow>
                    (case hex4 h1 h2 h3 h4 of
                       None \<Rightarrow> None
                     | Some u \<Rightarrow> tokenize_string (acc @ [u]) rest)
                | _ \<Rightarrow> None)
             else
               (case unescape e of
                  None \<Rightarrow> None
                | Some u \<Rightarrow> tokenize_string (acc @ [u]) es))
      else if c < 0x20 then None
      else tokenize_string (acc @ [c]) cs)\<close>

text \<open>
  The parser takes a bound \<open>n\<close> on the number of nested calls; the number of tokens is
  enough, since every call reads a token before it calls again.
\<close>

fun parse_value :: "nat \<Rightarrow> token list \<Rightarrow> (json \<times> token list) option"
  and parse_elements :: "nat \<Rightarrow> token list \<Rightarrow> (json list \<times> token list) option"
  and parse_members :: "nat \<Rightarrow> token list \<Rightarrow> ((jsstring \<times> json) list \<times> token list) option"
  where
  "parse_value 0 ts = None"
| "parse_value (Suc n) ts =
     (case ts of
        STRING s # ts' \<Rightarrow> Some (JString s, ts')
      | LBRACKET # RBRACKET # ts' \<Rightarrow> Some (JArray [], ts')
      | LBRACKET # ts' \<Rightarrow>
          (case parse_elements n ts' of
             None \<Rightarrow> None
           | Some (vs, rest) \<Rightarrow> Some (JArray vs, rest))
      | LBRACE # RBRACE # ts' \<Rightarrow> Some (JObject [], ts')
      | LBRACE # ts' \<Rightarrow>
          (case parse_members n ts' of
             None \<Rightarrow> None
           | Some (ms, rest) \<Rightarrow> Some (JObject ms, rest))
      | _ \<Rightarrow> None)"
| "parse_elements 0 ts = None"
| "parse_elements (Suc n) ts =
     (case parse_value n ts of
        Some (v, COMMA # ts') \<Rightarrow>
          (case parse_elements n ts' of
             None \<Rightarrow> None
           | Some (vs, rest) \<Rightarrow> Some (v # vs, rest))
      | Some (v, RBRACKET # ts') \<Rightarrow> Some ([v], ts')
      | _ \<Rightarrow> None)"
| "parse_members 0 ts = None"
| "parse_members (Suc n) ts =
     (case ts of
        STRING k # COLON # ts' \<Rightarrow>
          (case parse_value n ts' of
             Some (v, COMMA # ts'') \<Rightarrow>
               (case parse_members n ts'' of
                  None \<Rightarrow> None
                | Some (ms, rest) \<Rightarrow> Some ((k, v) # ms, rest))
           | Some (v, RBRACE # ts'') \<Rightarrow> Some ([(k, v)], ts'')
           | _ \<Rightarrow> None)
      | _ \<Rightarrow> None)"

definition JSON_parse :: "jsstring \<Rightarrow> json option" where
  "JSON_parse s =
     (case tokenize s of
        None \<Rightarrow> None
      | Some ts \<Rightarrow>
          (case parse_value (length ts) ts of
             Some (v, []) \<Rightarrow> Some v
           | _ \<Rightarrow> None))"

text \<open>The text and the tokens of one record of the export, and of a sequence of them.\<close>

definition record_text :: "FileRecord \<Rightarrow> jsstring" where
  "record_text f =
     js ''{'' @ LF # js ''    '' @ QuoteJSONString (js ''fileName'') @ js '': ''
       @ QuoteJSONString (fileName f) @ js '','' @ LF # js ''    ''
       @ QuoteJSONString (js ''content'') @ js '': '' @ QuoteJSONString (content f)
       @ LF # js ''  }''"

definition record_tokens :: "FileRecord \<Rightarrow> token list" where
  "record_tokens f =
     [LBRACE, STRING (js ''fileName''), COLON, STRING (fileName f), COMMA,
      STRING (js ''content''), COLON, STRING (content f), RBRACE]"

fun records_tokens :: "FileRecord list \<Rightarrow> token list" where
  "records_tokens [] = []"
| "records_tokens [f] = record_tokens f @ [RBRACKET]"
| "records_tokens (f # g # fs) = record_tokens f @ COMMA # records_tokens (g # fs)"

text \<open>
  The \<^verbatim>\<open>{name, content}\<close> pair that the specification speaks of, for one record: the
  file name under the key \<^verbatim>\<open>name\<close>.
\<close>

definition pair_value :: "FileRecord \<Rightarrow> json" where
  "pair_value f =
     JObject [(js ''name'', JString (fileName f)), (js ''content'', JString (content f))]"

section \<open>The XML escaping\<close>

lemma foldl_append_concat:
  "foldl (\<lambda>acc x. acc @ f x) a xs = a @ concat (map f xs)"
  by (induction xs arbitrary: a) simp_all

lemma convertToXML_concat:
  "convertToXML data = js ''<files>'' @ concat (map xml_element data) @ LF # js ''</files>''"
  by (simp add: convertToXML_def foldl_append_concat)

lemma replace_char_Nil: "replace_char c rep [] = []"
  by (simp add: replace_char_def)

lemma replace_char_Cons:
  "replace_char c rep (x # xs) = (if x = c then rep else [x]) @ replace_char c rep xs"
  by (simp add: replace_char_def)

lemma replace_char_append:
  "replace_char c rep (xs @ ys) = replace_char c rep xs @ replace_char c rep ys"
  by (simp add: replace_char_def)

lemma escapedContent_Nil: "escapedContent [] = []"
  by (simp add: escapedContent_def replace_char_Nil)

lemma escapedContent_Cons: "escapedContent (c # cs) = xml_entity c @ escapedContent cs"
  by (simp add: escapedContent_def xml_entity_def replace_char_Cons replace_char_append
      replace_char_Nil js_def)

lemma escapedContent_entities: "escapedContent s = concat (map xml_entity s)"
  by (induction s) (simp_all add: escapedContent_Nil escapedContent_Cons)

lemma no_raw_entity: "no_raw_reserved (xml_entity c @ r) = no_raw_reserved r"
  by (simp add: xml_entity_def starts_entity_def js_def)

lemma no_raw_escapedContent: "no_raw_reserved (escapedContent s)"
  by (induction s) (simp_all add: escapedContent_Nil escapedContent_Cons no_raw_entity)

lemma entity_upto_5: "entity_upto 5 = xml_entity"
  by (rule ext) (simp add: entity_upto_def xml_entity_def)

lemma entity_upto_0: "concat (map (entity_upto 0) s) = s"
  by (induction s) (simp_all add: entity_upto_def)

lemma undo_apos:
  "replace_all (js ''&apos;'') [of_char CHR 0x27] (concat (map (entity_upto 5) s))
     = concat (map (entity_upto 4) s)"
  by (induction s) (simp_all add: entity_upto_def js_def)

lemma undo_quot:
  \<open>replace_all (js ''&quot;'') (js ''"'') (concat (map (entity_upto 4) s))
     = concat (map (entity_upto 3) s)\<close>
  by (induction s) (simp_all add: entity_upto_def js_def)

lemma undo_gt:
  \<open>replace_all (js ''&gt;'') (js ''>'') (concat (map (entity_upto 3) s))
     = concat (map (entity_upto 2) s)\<close>
  by (induction s) (simp_all add: entity_upto_def js_def)

lemma undo_lt:
  \<open>replace_all (js ''&lt;'') (js ''<'') (concat (map (entity_upto 2) s))
     = concat (map (entity_upto 1) s)\<close>
  by (induction s) (simp_all add: entity_upto_def js_def)

lemma undo_amp:
  \<open>replace_all (js ''&amp;'') (js ''&'') (concat (map (entity_upto 1) s))
     = concat (map (entity_upto 0) s)\<close>
  by (induction s) (simp_all add: entity_upto_def js_def)

text \<open>
  C1. For every batch of records, the XML converter writes one element per record, in
  order, whose body is the escaped content of that record. For every content string,
  the five substitutions, the ampersand first, give each reserved character its entity
  and leave every other code unit alone; the body then has no raw reserved character,
  and undoing the five substitutions gives the content back.
\<close>

theorem escapedContent_round_trip:
  \<open>convertToXML data =
     js ''<files>''
       @ concat (map (\<lambda>f. LF # js ''  <file name="'' @ fileName f @ js ''">''
                             @ escapedContent (content f) @ js ''</file>'') data)
       @ LF # js ''</files>''
   \<and> escapedContent s = concat (map xml_entity s)
   \<and> no_raw_reserved (escapedContent s)
   \<and> decodeContent (escapedContent s) = s\<close>
proof -
  have \<open>map xml_element data =
      map (\<lambda>f. LF # js ''  <file name="'' @ fileName f @ js ''">''
                   @ escapedContent (content f) @ js ''</file>'') data\<close>
    by (simp add: xml_element_def)
  then have elements: \<open>convertToXML data =
     js ''<files>''
       @ concat (map (\<lambda>f. LF # js ''  <file name="'' @ fileName f @ js ''">''
                             @ escapedContent (content f) @ js ''</file>'') data)
       @ LF # js ''</files>''\<close>
    by (simp only: convertToXML_concat)
  have "decodeContent (concat (map (entity_upto 5) s)) = s"
    by (simp only: decodeContent_def undo_apos undo_quot undo_gt undo_lt undo_amp entity_upto_0)
  then have "escapedContent s = concat (map xml_entity s)
      \<and> no_raw_reserved (escapedContent s) \<and> decodeContent (escapedContent s) = s"
    by (simp add: escapedContent_entities [symmetric] entity_upto_5 no_raw_escapedContent)
  with elements show ?thesis
    by blast
qed

section \<open>The Markdown and the empty exports\<close>



lemma convertToMarkdown_concat:
  "convertToMarkdown data = trim (concat (map md_section data))"
  by (simp add: convertToMarkdown_def foldl_append_concat)

lemma trim_Nil: "trim [] = []"
  by (simp add: trim_def)

lemma trim_two_LF:
  assumes "\<not> is_trim_space a" and "\<not> is_trim_space z"
  shows "trim (a # m @ [z, LF, LF]) = a # m @ [z]"
proof -
  have ws: "is_trim_space LF" by (simp add: is_trim_space_def LF_def)
  have "rev (a # m @ [z, LF, LF]) = LF # LF # z # rev m @ [a]" by simp
  with assms ws show ?thesis by (simp add: trim_def)
qed

lemma md_sections_last:
  "concat (map md_section (rs @ [r])) =
     concat (map md_section rs) @ js ''## '' @ fileName r @ LF # js ''```'' @ LF # content r
       @ LF # js ''```'' @ [LF, LF]"
  by (simp add: md_section_def)

lemma md_sections_shape:
  "\<exists>m. concat (map md_section rs) @ js ''## '' @ fileName r @ LF # js ''```'' @ LF # content r
       @ LF # js ''```'' = of_char CHR ''#'' # m @ [of_char CHR ''`'']"
proof (cases rs)
  case Nil
  then show ?thesis by (simp add: js_def)
next
  case (Cons q qs)
  then show ?thesis by (simp add: js_def md_section_def)
qed

text \<open>
  C7. The Markdown export is, for each record in input order, a heading line with the
  file name, a fence, the content as it is, a fence and an empty line; trimming takes
  away only the line ends after the last fence. For the single record with name
  \<^verbatim>\<open>a.txt\<close> and content \<^verbatim>\<open>hi\<close> it is the heading line, a fence line, \<^verbatim>\<open>hi\<close> and the
  closing fence.
\<close>

theorem convertToMarkdown_sections:
  "convertToMarkdown [] = []
   \<and> convertToMarkdown (rs @ [r]) =
       concat (map (\<lambda>f. js ''## '' @ fileName f @ LF # js ''```'' @ LF # content f @ LF # js ''```''
                            @ [LF, LF]) rs)
         @ js ''## '' @ fileName r @ LF # js ''```'' @ LF # content r @ LF # js ''```''
   \<and> convertToMarkdown [\<lparr>fileName = js ''a.txt'', content = js ''hi''\<rparr>] =
       js ''## a.txt'' @ LF # js ''```'' @ LF # js ''hi'' @ LF # js ''```''"
proof -
  have general: "convertToMarkdown (qs @ [q]) =
       concat (map md_section qs) @ js ''## '' @ fileName q @ LF # js ''```'' @ LF # content q
         @ LF # js ''```''" for qs q
  proof -
    obtain m where m: "concat (map md_section qs) @ js ''## '' @ fileName q @ LF # js ''```''
        @ LF # content q @ LF # js ''```'' = of_char CHR ''#'' # m @ [of_char CHR ''`'']"
      using md_sections_shape by blast
    have "concat (map md_section (qs @ [q])) = of_char CHR ''#'' # m @ [of_char CHR ''`'', LF, LF]"
      using m by (simp add: md_section_def)
    then have "convertToMarkdown (qs @ [q]) = of_char CHR ''#'' # m @ [of_char CHR ''`'']"
      by (simp only: convertToMarkdown_concat)
         (rule trim_two_LF; simp add: is_trim_space_def)
    with m show ?thesis by simp
  qed
  have "convertToMarkdown [] = []"
    by (simp add: convertToMarkdown_concat trim_Nil)
  moreover have "convertToMarkdown (rs @ [r]) =
       concat (map (\<lambda>f. js ''## '' @ fileName f @ LF # js ''```'' @ LF # content f @ LF # js ''```''
                            @ [LF, LF]) rs)
         @ js ''## '' @ fileName r @ LF # js ''```'' @ LF # content r @ LF # js ''```''"
    using general [of rs r] by (simp add: md_section_def [abs_def])
  moreover have "convertToMarkdown [\<lparr>fileName = js ''a.txt'', content = js ''hi''\<rparr>] =
       js ''## a.txt'' @ LF # js ''```'' @ LF # js ''hi'' @ LF # js ''```''"
    using general [of "[]" "\<lparr>fileName = js ''a.txt'', content = js ''hi''\<rparr>"]
    by (simp add: js_def)
  ultimately show ?thesis by blast
qed

text \<open>
  C8. For no records at all the JSON export is the empty list \<^verbatim>\<open>[]\<close>, the XML export
  is \<^verbatim>\<open><files>\<close>, a line feed and \<^verbatim>\<open></files>\<close>, and the Markdown export is empty.
\<close>

theorem getExportOutput_no_records:
  "getExportOutput (js ''json'') [] = js ''[]''
   \<and> getExportOutput (js ''xml'') [] = js ''<files>'' @ LF # js ''</files>''
   \<and> getExportOutput (js ''markdown'') [] = []"
  by (simp add: getExportOutput_def JSON_stringify_def data_value_def convertToXML_def
      convertToMarkdown_def trim_def js_def)

text \<open>
  C9. A format tag other than \<^verbatim>\<open>json\<close>, \<^verbatim>\<open>xml\<close> and \<^verbatim>\<open>markdown\<close> gives the empty
  string, whatever the records are.
\<close>

theorem getExportOutput_unknown_format:
  assumes "fmt \<noteq> js ''json''" and "fmt \<noteq> js ''xml''" and "fmt \<noteq> js ''markdown''"
  shows "getExportOutput fmt data = []"
  using assms by (simp add: getExportOutput_def)

theorem getExportOutput_unknown_format_witness:
  "js ''yaml'' \<noteq> js ''json'' \<and> js ''yaml'' \<noteq> js ''xml'' \<and> js ''yaml'' \<noteq> js ''markdown''
   \<and> getExportOutput (js ''yaml'') [\<lparr>fileName = js ''a.txt'', content = js ''hi''\<rparr>] = []"
proof -
  have h1: "js ''yaml'' \<noteq> js ''json''" and h2: "js ''yaml'' \<noteq> js ''xml''"
    and h3: "js ''yaml'' \<noteq> js ''markdown''"
    by (simp_all add: js_def)
  from getExportOutput_unknown_format [OF h1 h2 h3] h1 h2 h3 show ?thesis by simp
qed

section \<open>Reading a batch\<close>

lemma settle_rejects:
  "\<exists>i\<in>set sched. i < length outcomes \<and> isl (outcomes ! i)
     \<Longrightarrow> \<exists>reason. settle sched outcomes vals = Inl reason \<and> Inl reason \<in> set outcomes"
proof (induction sched arbitrary: vals)
  case Nil
  then show ?case by simp
next
  case (Cons i sched)
  show ?case
  proof (cases "i < length outcomes")
    case False
    with Cons show ?thesis by auto
  next
    case True
    show ?thesis
    proof (cases "outcomes ! i")
      case (Inl reason)
      with True show ?thesis by (auto simp: in_set_conv_nth)
    next
      case (Inr v)
      with True Cons.prems have "\<exists>j\<in>set sched. j < length outcomes \<and> isl (outcomes ! j)"
        by auto
      from Cons.IH [OF this] True Inr show ?thesis by simp
    qed
  qed
qed

lemma settle_fulfils:
  "length vals = length vs \<Longrightarrow>
     settle sched (map Inr vs) vals =
       Inr (map (\<lambda>i. if i \<in> set sched then Some (vs ! i) else vals ! i) [0..<length vs])"
proof (induction sched arbitrary: vals)
  case Nil
  have "map (\<lambda>i. vals ! i) [0..<length vals] = vals"
    by (rule map_nth)
  with Nil show ?case by simp
next
  case (Cons i sched)
  show ?case
  proof (cases "i < length vs")
    case True
    with Cons.prems have "settle (i # sched) (map Inr vs) vals
        = settle sched (map Inr vs) (vals[i := Some (vs ! i)])"
      by simp
    also have "\<dots> = Inr (map (\<lambda>j. if j \<in> set sched then Some (vs ! j)
                                   else vals[i := Some (vs ! i)] ! j) [0..<length vs])"
      using Cons.prems by (intro Cons.IH) simp
    also have "\<dots> = Inr (map (\<lambda>j. if j \<in> set (i # sched) then Some (vs ! j) else vals ! j)
                            [0..<length vs])"
      using Cons.prems by (auto simp: nth_list_update)
    finally show ?thesis .
  next
    case False
    with Cons.prems have "settle (i # sched) (map Inr vs) vals = settle sched (map Inr vs) vals"
      by simp
    also have "\<dots> = Inr (map (\<lambda>j. if j \<in> set sched then Some (vs ! j) else vals ! j)
                            [0..<length vs])"
      using Cons.prems by (intro Cons.IH)
    also have "\<dots> = Inr (map (\<lambda>j. if j \<in> set (i # sched) then Some (vs ! j) else vals ! j)
                            [0..<length vs])"
      using False by auto
    finally show ?thesis .
  qed
qed

lemma Promise_all_fulfils:
  assumes "completion_order (length vs) sched"
  shows "Promise_all sched (map Inr vs) = Some (Inr vs)"
proof -
  have "settle sched (map Inr vs) (replicate (length vs) None)
          = Inr (map (\<lambda>i. if i \<in> set sched then Some (vs ! i)
                          else replicate (length vs) None ! i) [0..<length vs])"
    by (rule settle_fulfils) simp
  also have "map (\<lambda>i. if i \<in> set sched then Some (vs ! i)
                          else replicate (length vs) None ! i) [0..<length vs]
             = map (\<lambda>i. Some (vs ! i)) [0..<length vs]"
    using assms by (simp add: completion_order_def)
  also have "\<dots> = map Some (map (\<lambda>i. vs ! i) [0..<length vs])"
    by simp
  also have "\<dots> = map Some vs"
    by (simp only: map_nth)
  finally show ?thesis
    by (simp add: Promise_all_def list_all_iff comp_def)
qed

lemma Promise_all_rejects:
  assumes "completion_order (length outcomes) sched" and "Inl e \<in> set outcomes"
  shows "\<exists>reason. Promise_all sched outcomes = Some (Inl reason) \<and> Inl reason \<in> set outcomes"
proof -
  from assms(2) obtain i where "i < length outcomes" "outcomes ! i = Inl e"
    by (auto simp: in_set_conv_nth)
  with assms(1) have "\<exists>i\<in>set sched. i < length outcomes \<and> isl (outcomes ! i)"
    by (intro bexI [of _ i]) (simp_all add: completion_order_def)
  from settle_rejects [OF this, of "replicate (length outcomes) None"]
  obtain reason where "settle sched outcomes (replicate (length outcomes) None) = Inl reason"
    and "Inl reason \<in> set outcomes"
    by blast
  then show ?thesis
    by (simp add: Promise_all_def)
qed

lemma read_records_fulfilled:
  "list_all (\<lambda>f. \<not> isl (readFileAsText f)) fileArray \<Longrightarrow>
     map read_record fileArray =
       map Inr (map (\<lambda>f. \<lparr>fileName = name f, content = projr (readFileAsText f)\<rparr>) fileArray)"
  by (induction fileArray) (auto simp: read_record_def split: sum.splits)

section \<open>Copying to the clipboard\<close>

lemma autoCopy_resolves:
  "\<exists>success pg'. autoCopyToClipboard b text pg = (Inr success, pg')"
  by (auto simp: autoCopyToClipboard_def split: clipboard_api.splits prod.splits sum.splits)

lemma fallback_copy_not_False: "fallback_copy b text pg \<noteq> (Inr False, pg')"
  by (auto simp: fallback_copy_def Let_def split: outcome.splits)

lemma autoCopy_False_iff:
  "fst (autoCopyToClipboard b t pg) = Inr False \<longleftrightarrow>
     writeText b \<noteq> Resolves \<and> isl (fst (fallback_copy b t pg))"
  using fallback_copy_not_False [of b t pg]
  by (cases "fallback_copy b t pg"; cases "fst (fallback_copy b t pg)")
     (auto simp: autoCopyToClipboard_def split: clipboard_api.splits)

section \<open>The claims about the clipboard and the batch\<close>

text \<open>
  C2. The claim is that the function resolves to \<^verbatim>\<open>false\<close> exactly when both strategies
  fail or throw. Here the clipboard API is missing and \<^verbatim>\<open>execCommand('copy')\<close> returns
  \<^verbatim>\<open>false\<close>: nothing reaches the clipboard, and the function resolves to \<^verbatim>\<open>true\<close>.
\<close>

theorem autoCopy_true_after_failed_copy:
  "autoCopyToClipboard
     \<lparr>writeText = Unavailable, createElement = Returns (), appendChild = Returns (),
      select_text = Returns (), execCommand_copy = Returns False, removeChild = Returns ()\<rparr>
     (js ''hi'')
     \<lparr>body_children = [], system_clipboard = None, console = [], timers = []\<rparr>
   = (Inr True, \<lparr>body_children = [], system_clipboard = None, console = [], timers = []\<rparr>)"
  by (simp add: autoCopyToClipboard_def fallback_copy_def)

text \<open>
  C3. The claim is that the temporary text area is removed on every path. Here the
  clipboard API is missing and \<^verbatim>\<open>execCommand('copy')\<close> throws: the function resolves to
  \<^verbatim>\<open>false\<close> and the text area is still a child of the body.
\<close>

theorem autoCopy_leaves_textarea_on_failure:
  "autoCopyToClipboard
     \<lparr>writeText = Unavailable, createElement = Returns (), appendChild = Returns (),
      select_text = Returns (), execCommand_copy = Throws (Thrown (js ''NotAllowedError'')),
      removeChild = Returns ()\<rparr>
     (js ''hi'')
     \<lparr>body_children = [], system_clipboard = None, console = [], timers = []\<rparr>
   = (Inr False,
      \<lparr>body_children = [js ''hi''], system_clipboard = None, console = [], timers = []\<rparr>)"
  by (simp add: autoCopyToClipboard_def fallback_copy_def)

text \<open>
  C4. When the read of some file of the batch fails, whatever the order in which the
  reads complete, \<^verbatim>\<open>Promise.all\<close> rejects with one of the read errors, no records come
  out, the state of the component is the one before, and the only change to the page
  is that error, appended to the console.
\<close>

theorem readAndSetFiles_read_failure:
  assumes "completion_order (length fileArray) sched"
    and "list_ex (\<lambda>f. isl (readFileAsText f)) fileArray"
  shows "\<exists>error. Promise_all sched (map read_record fileArray) = Some (Inl error)
           \<and> Inl error \<in> set (map readFileAsText fileArray)
           \<and> readAndSetFiles b sched fileArray st pg
               = Some (st, pg\<lparr>console := console pg @ [error]\<rparr>)"
proof -
  from assms(2) obtain f where f: "f \<in> set fileArray" "isl (readFileAsText f)"
    by (auto simp: list_ex_iff)
  then obtain e where "read_record f = Inl e"
    by (cases "readFileAsText f") (simp_all add: read_record_def)
  with f have "Inl e \<in> set (map read_record fileArray)"
    by force
  with assms(1) obtain error
    where rejected: "Promise_all sched (map read_record fileArray) = Some (Inl error)"
      and "Inl error \<in> set (map read_record fileArray)"
    using Promise_all_rejects [of "map read_record fileArray" sched e] by auto
  then have "Inl error \<in> set (map readFileAsText fileArray)"
    by (auto simp: read_record_def split: sum.splits) force
  with rejected show ?thesis
    by (simp add: readAndSetFiles_def)
qed

theorem readAndSetFiles_read_failure_witness:
  "readAndSetFiles
     \<lparr>writeText = Resolves, createElement = Returns (), appendChild = Returns (),
      select_text = Returns (), execCommand_copy = Returns True, removeChild = Returns ()\<rparr>
     [1, 0]
     [\<lparr>name = js ''a.txt'', reads_as = Inr (js ''hi'')\<rparr>,
      \<lparr>name = js ''b.txt'', reads_as = Inl (Thrown (js ''NotReadableError''))\<rparr>]
     \<lparr>filesData = [\<lparr>fileName = js ''old'', content = js ''x''\<rparr>],
      selectedExportFormat = js ''json'', isDragging = False, copyMessage = []\<rparr>
     \<lparr>body_children = [], system_clipboard = None, console = [], timers = []\<rparr>
   = Some (\<lparr>filesData = [\<lparr>fileName = js ''old'', content = js ''x''\<rparr>],
             selectedExportFormat = js ''json'', isDragging = False, copyMessage = []\<rparr>,
           \<lparr>body_children = [], system_clipboard = None,
            console = [Thrown (js ''NotReadableError'')], timers = []\<rparr>)"
proof -
  let ?files = "[\<lparr>name = js ''a.txt'', reads_as = Inr (js ''hi'')\<rparr>,
      \<lparr>name = js ''b.txt'', reads_as = Inl (Thrown (js ''NotReadableError''))\<rparr>]"
  have h1: "completion_order (length ?files) [1, 0]"
    by (auto simp: completion_order_def)
  have h2: "list_ex (\<lambda>f. isl (readFileAsText f)) ?files"
    by (simp add: readFileAsText_def)
  from readAndSetFiles_read_failure [OF h1 h2] show ?thesis
    by (auto simp: readFileAsText_def)
qed

text \<open>
  C5. When every read of the batch succeeds, whatever the order in which the reads
  complete, the records that \<^verbatim>\<open>readAndSetFiles\<close> obtains from \<^verbatim>\<open>Promise.all\<close> are those
  of the files in the order of the input array, and it is this sequence, in this
  order, that the function stores as the file list and exports to the clipboard
  writer: the outcome of the function does not depend on the completion order.
\<close>

theorem extraction_keeps_input_order:
  assumes "completion_order (length fileArray) sched"
    and "list_all (\<lambda>f. \<not> isl (readFileAsText f)) fileArray"
  shows "Promise_all sched (map read_record fileArray) =
           Some (Inr (map (\<lambda>f. \<lparr>fileName = name f, content = projr (readFileAsText f)\<rparr>)
                        fileArray))
         \<and> (\<exists>success pg'.
               autoCopyToClipboard b
                 (getExportOutput (selectedExportFormat st)
                    (map (\<lambda>f. \<lparr>fileName = name f, content = projr (readFileAsText f)\<rparr>)
                       fileArray)) pg
                 = (Inr success, pg')
               \<and> readAndSetFiles b sched fileArray st pg =
                   Some (st\<lparr>filesData :=
                              map (\<lambda>f. \<lparr>fileName = name f,
                                          content = projr (readFileAsText f)\<rparr>) fileArray,
                            copyMessage := (if success then js ''Copied to clipboard!''
                                            else js ''Clipboard copy failed.'')\<rparr>,
                         pg'\<lparr>timers := timers pg' @ [3000]\<rparr>))"
proof -
  let ?results = "map (\<lambda>f. \<lparr>fileName = name f, content = projr (readFileAsText f)\<rparr>) fileArray"
  from assms(1) have "completion_order (length ?results) sched"
    by simp
  then have "Promise_all sched (map Inr ?results) = Some (Inr ?results)"
    by (rule Promise_all_fulfils)
  moreover have "map read_record fileArray = map Inr ?results"
    using assms(2) by (rule read_records_fulfilled)
  ultimately have fulfilled: "Promise_all sched (map read_record fileArray) = Some (Inr ?results)"
    by (simp only:)
  obtain success pg' where copied:
    "autoCopyToClipboard b (getExportOutput (selectedExportFormat st) ?results) pg
       = (Inr success, pg')"
    using autoCopy_resolves by blast
  with fulfilled have "readAndSetFiles b sched fileArray st pg =
      Some (st\<lparr>filesData := ?results,
               copyMessage := (if success then js ''Copied to clipboard!''
                               else js ''Clipboard copy failed.'')\<rparr>,
            pg'\<lparr>timers := timers pg' @ [3000]\<rparr>)"
    by (simp add: readAndSetFiles_def Let_def)
  with fulfilled copied show ?thesis
    by blast
qed

theorem extraction_keeps_input_order_witness:
  "Promise_all [1, 0]
     (map read_record
        [\<lparr>name = js ''slow'', reads_as = Inr (js ''first'')\<rparr>,
         \<lparr>name = js ''fast'', reads_as = Inr (js ''second'')\<rparr>])
   = Some (Inr [\<lparr>fileName = js ''slow'', content = js ''first''\<rparr>,
                \<lparr>fileName = js ''fast'', content = js ''second''\<rparr>])
   \<and> map_option (\<lambda>r. filesData (fst r))
        (readAndSetFiles
           \<lparr>writeText = Resolves, createElement = Returns (), appendChild = Returns (),
            select_text = Returns (), execCommand_copy = Returns True, removeChild = Returns ()\<rparr>
           [1, 0]
           [\<lparr>name = js ''slow'', reads_as = Inr (js ''first'')\<rparr>,
            \<lparr>name = js ''fast'', reads_as = Inr (js ''second'')\<rparr>]
           \<lparr>filesData = [\<lparr>fileName = js ''old'', content = js ''x''\<rparr>],
            selectedExportFormat = js ''xml'', isDragging = False, copyMessage = []\<rparr>
           \<lparr>body_children = [], system_clipboard = None, console = [], timers = []\<rparr>)
     = Some [\<lparr>fileName = js ''slow'', content = js ''first''\<rparr>,
             \<lparr>fileName = js ''fast'', content = js ''second''\<rparr>]"
proof -
  let ?files = "[\<lparr>name = js ''slow'', reads_as = Inr (js ''first'')\<rparr>,
         \<lparr>name = js ''fast'', reads_as = Inr (js ''second'')\<rparr>]"
  let ?b = "\<lparr>writeText = Resolves, createElement = Returns (), appendChild = Returns (),
            select_text = Returns (), execCommand_copy = Returns True, removeChild = Returns ()\<rparr>"
  let ?st = "\<lparr>filesData = [\<lparr>fileName = js ''old'', content = js ''x''\<rparr>],
            selectedExportFormat = js ''xml'', isDragging = False, copyMessage = []\<rparr>"
  let ?pg = "\<lparr>body_children = [], system_clipboard = None, console = [], timers = []\<rparr>"
  have h1: "completion_order (length ?files) [1, 0]"
    by (auto simp: completion_order_def)
  have h2: "list_all (\<lambda>f. \<not> isl (readFileAsText f)) ?files"
    by (simp add: readFileAsText_def)
  from extraction_keeps_input_order [OF h1 h2, of ?b ?st ?pg] show ?thesis
    by (auto simp: readFileAsText_def)
qed

text \<open>
  C10. When every read of the batch succeeds, \<^verbatim>\<open>readAndSetFiles\<close> completes and the
  stored file list is then the records of this batch alone, whatever was stored
  before; the export format is the one before.
\<close>

theorem readAndSetFiles_replaces:
  assumes "completion_order (length fileArray) sched"
    and "list_all (\<lambda>f. \<not> isl (readFileAsText f)) fileArray"
  shows "\<exists>st' pg'. readAndSetFiles b sched fileArray st pg = Some (st', pg')
           \<and> filesData st' =
               map (\<lambda>f. \<lparr>fileName = name f, content = projr (readFileAsText f)\<rparr>) fileArray
           \<and> selectedExportFormat st' = selectedExportFormat st"
proof -
  let ?results = "map (\<lambda>f. \<lparr>fileName = name f, content = projr (readFileAsText f)\<rparr>) fileArray"
  from assms(1) have "completion_order (length ?results) sched"
    by simp
  then have "Promise_all sched (map Inr ?results) = Some (Inr ?results)"
    by (rule Promise_all_fulfils)
  moreover have "map read_record fileArray = map Inr ?results"
    using assms(2) by (rule read_records_fulfilled)
  ultimately have fulfilled: "Promise_all sched (map read_record fileArray) = Some (Inr ?results)"
    by (simp only:)
  obtain success pg' where
    "autoCopyToClipboard b (getExportOutput (selectedExportFormat st) ?results) pg
       = (Inr success, pg')"
    using autoCopy_resolves by blast
  with fulfilled show ?thesis
    by (simp add: readAndSetFiles_def Let_def)
qed

theorem readAndSetFiles_replaces_witness:
  "\<exists>st' pg'.
     readAndSetFiles
       \<lparr>writeText = Resolves, createElement = Returns (), appendChild = Returns (),
        select_text = Returns (), execCommand_copy = Returns True, removeChild = Returns ()\<rparr>
       [1, 0]
       [\<lparr>name = js ''a.txt'', reads_as = Inr (js ''hi'')\<rparr>,
        \<lparr>name = js ''b.txt'', reads_as = Inr (js ''there'')\<rparr>]
       \<lparr>filesData = [\<lparr>fileName = js ''old'', content = js ''x''\<rparr>],
        selectedExportFormat = js ''xml'', isDragging = False, copyMessage = []\<rparr>
       \<lparr>body_children = [], system_clipboard = None, console = [], timers = []\<rparr>
     = Some (st', pg')
     \<and> filesData st' = [\<lparr>fileName = js ''a.txt'', content = js ''hi''\<rparr>,
                        \<lparr>fileName = js ''b.txt'', content = js ''there''\<rparr>]
     \<and> selectedExportFormat st' = js ''xml''"
proof -
  let ?files = "[\<lparr>name = js ''a.txt'', reads_as = Inr (js ''hi'')\<rparr>,
        \<lparr>name = js ''b.txt'', reads_as = Inr (js ''there'')\<rparr>]"
  have h1: "completion_order (length ?files) [1, 0]"
    by (auto simp: completion_order_def)
  have h2: "list_all (\<lambda>f. \<not> isl (readFileAsText f)) ?files"
    by (simp add: readFileAsText_def)
  let ?b = "\<lparr>writeText = Resolves, createElement = Returns (), appendChild = Returns (),
        select_text = Returns (), execCommand_copy = Returns True, removeChild = Returns ()\<rparr>"
  let ?st = "\<lparr>filesData = [\<lparr>fileName = js ''old'', content = js ''x''\<rparr>],
        selectedExportFormat = js ''xml'', isDragging = False, copyMessage = []\<rparr>"
  let ?pg = "\<lparr>body_children = [], system_clipboard = None, console = [], timers = []\<rparr>"
  from readAndSetFiles_replaces [OF h1 h2, of ?b ?st ?pg] show ?thesis
    by (simp add: readFileAsText_def)
qed

section \<open>The JSON export read back\<close>

lemma hexval_hexdigit: "d < 16 \<Longrightarrow> hexval (hexdigit d) = Some d"
proof -
  assume "d < 16"
  then have "d \<in> set [0, 1, 2, 3, 4, 5, 6, 7, 8, 9, 10, 11, 12, 13, 14, 15]"
    by (simp add: numeral_eq_Suc less_Suc_eq) 
  then show ?thesis
    by (auto simp: hexval_def hexdigit_def js_def)
qed

lemma hex_digits_value:
  "((n div 4096 * 16 + n div 256 mod 16) * 16 + n div 16 mod 16) * 16 + n mod 16 = (n::nat)"
proof -
  have a: "n div 256 = (n div 16) div 16" by (simp add: div_mult2_eq)
  have b: "n div 4096 = ((n div 16) div 16) div 16" by (simp add: div_mult2_eq)
  show ?thesis unfolding a b
    by (metis add.commute mod_mult_div_eq mult.commute)
qed

lemma unat_bound16: "unat (c :: 16 word) < 65536"
  using unsigned_less [of c, where ?'a = nat] by simp

lemma hex4_hexdigits:
  "hex4 (hexdigit (unat c div 4096)) (hexdigit (unat c div 256 mod 16))
        (hexdigit (unat c div 16 mod 16)) (hexdigit (unat c mod 16)) = Some c"
proof -
  let ?n = "unat c"
  have "?n div 4096 < 16"
    using unat_bound16 [of c] by simp
  then have v: "hexval (hexdigit (?n div 4096)) = Some (?n div 4096)"
    "hexval (hexdigit (?n div 256 mod 16)) = Some (?n div 256 mod 16)"
    "hexval (hexdigit (?n div 16 mod 16)) = Some (?n div 16 mod 16)"
    "hexval (hexdigit (?n mod 16)) = Some (?n mod 16)"
    by (simp_all add: hexval_hexdigit)
  have "hex4 (hexdigit (?n div 4096)) (hexdigit (?n div 256 mod 16))
          (hexdigit (?n div 16 mod 16)) (hexdigit (?n mod 16))
        = Some (of_nat (((?n div 4096 * 16 + ?n div 256 mod 16) * 16 + ?n div 16 mod 16) * 16
                          + ?n mod 16))"
    by (simp only: hex4_def v prod.case option.case)
  also have "\<dots> = Some (of_nat ?n)"
    by (simp only: hex_digits_value)
  finally show ?thesis
    by simp
qed

lemma tokenize_string_close:
  "tokenize_string acc (0x22 # cs) = map_option (Cons (STRING acc)) (tokenize cs)"
  by simp

lemma tokenize_string_raw:
  "c \<noteq> 0x22 \<Longrightarrow> c \<noteq> 0x5C \<Longrightarrow> \<not> c < 0x20 \<Longrightarrow>
     tokenize_string acc (c # cs) = tokenize_string (acc @ [c]) cs"
  by simp

lemma tokenize_string_escape:
  "e \<noteq> of_char CHR ''u'' \<Longrightarrow> unescape e = Some u \<Longrightarrow>
     tokenize_string acc (0x5C # e # cs) = tokenize_string (acc @ [u]) cs"
  by simp

lemma tokenize_string_unicode:
  "hex4 h1 h2 h3 h4 = Some u \<Longrightarrow>
     tokenize_string acc (0x5C # of_char CHR ''u'' # h1 # h2 # h3 # h4 # cs)
       = tokenize_string (acc @ [u]) cs"
  by simp

lemma tokenize_quote: "tokenize (0x22 # cs) = tokenize_string [] cs"
  by (simp add: is_json_space_def)

lemma tokenize_space: "is_json_space c \<Longrightarrow> tokenize (c # cs) = tokenize cs"
  by simp

lemma tokenize_punctuation:
  "tokenize (0x5B # cs) = map_option (Cons LBRACKET) (tokenize cs)"
  "tokenize (0x5D # cs) = map_option (Cons RBRACKET) (tokenize cs)"
  "tokenize (0x7B # cs) = map_option (Cons LBRACE) (tokenize cs)"
  "tokenize (0x7D # cs) = map_option (Cons RBRACE) (tokenize cs)"
  "tokenize (0x3A # cs) = map_option (Cons COLON) (tokenize cs)"
  "tokenize (0x2C # cs) = map_option (Cons COMMA) (tokenize cs)"
  by (simp_all add: is_json_space_def)

declare tokenize.simps [simp del] tokenize_string.simps [simp del]

lemma surrogate_raw:
  assumes "is_lead c \<or> is_trail c"
  shows "c \<noteq> 0x22" and "c \<noteq> 0x5C" and "\<not> c < 0x20"
  using assms by (auto simp: is_lead_def is_trail_def word_le_nat_alt word_less_nat_alt)

lemma tokenize_string_UnicodeEscape:
  "tokenize_string acc (UnicodeEscape c @ rest) = tokenize_string (acc @ [c]) rest"
  by (simp only: UnicodeEscape_def Let_def append.simps
      tokenize_string_unicode [OF hex4_hexdigits])

lemma tokenize_string_quote_unit:
  "tokenize_string acc (quote_unit c @ rest) = tokenize_string (acc @ [c]) rest"
proof (cases "quote_unit c = UnicodeEscape c")
  case True
  then show ?thesis by (simp only: tokenize_string_UnicodeEscape)
next
  case False
  then consider "c = 0x08" | "c = 0x09" | "c = 0x0A" | "c = 0x0C" | "c = 0x0D" | "c = 0x22"
    | "c = 0x5C" | "quote_unit c = [c]" "c \<noteq> 0x22" "c \<noteq> 0x5C" "\<not> c < 0x20"
    by (auto simp: quote_unit_def split: if_splits)
  then show ?thesis
  proof cases
    case 8
    then show ?thesis by (simp add: tokenize_string_raw)
  qed (simp_all add: quote_unit_def unescape_def tokenize_string_escape)
qed

lemma tokenize_string_pair:
  assumes "is_lead c" and "is_trail d"
  shows "tokenize_string acc (c # d # rest) = tokenize_string (acc @ [c, d]) rest"
proof -
  have "tokenize_string acc (c # d # rest) = tokenize_string (acc @ [c]) (d # rest)"
    using assms(1) by (intro tokenize_string_raw surrogate_raw) simp_all
  also have "\<dots> = tokenize_string ((acc @ [c]) @ [d]) rest"
    using assms(2) by (intro tokenize_string_raw surrogate_raw) simp_all
  finally show ?thesis by simp
qed

lemma tokenize_string_quote_units:
  "tokenize_string acc (quote_units s @ 0x22 # rest)
     = map_option (Cons (STRING (acc @ s))) (tokenize rest)"
proof (induction s arbitrary: acc rule: quote_units.induct)
  case 1
  show ?case by (simp add: tokenize_string_close)
next
  case (2 c)
  show ?case by (simp add: tokenize_string_quote_unit tokenize_string_close)
next
  case (3 c d cs)
  show ?case
  proof (cases "is_lead c \<and> is_trail d")
    case True
    then have "tokenize_string acc (quote_units (c # d # cs) @ 0x22 # rest)
        = tokenize_string (acc @ [c, d]) (quote_units cs @ 0x22 # rest)"
      by (simp add: tokenize_string_pair)
    with True "3.IH"(1) [of "acc @ [c, d]"] show ?thesis by simp
  next
    case False
    then have "quote_units (c # d # cs) = quote_unit c @ quote_units (d # cs)"
      by auto
    then have "tokenize_string acc (quote_units (c # d # cs) @ 0x22 # rest)
        = tokenize_string (acc @ [c]) (quote_units (d # cs) @ 0x22 # rest)"
      by (simp add: tokenize_string_quote_unit)
    with False "3.IH"(2) [of "acc @ [c]"] show ?thesis by simp
  qed
qed

lemma tokenize_QuoteJSONString:
  "tokenize (QuoteJSONString s @ rest) = map_option (Cons (STRING s)) (tokenize rest)"
  using tokenize_string_quote_units [of "[]" s rest]
  by (simp add: QuoteJSONString_def tokenize_quote)

lemma serialize_record:
  "SerializeJSONProperty [0x20, 0x20] [0x20, 0x20] (record_value f) = record_text f"
  by (simp add: record_value_def record_text_def js_def)

lemma stringify_data:
  "JSON_stringify (data_value data) 2 =
     (if data = [] then js ''[]''
      else js ''['' @ LF # js ''  '' @ join (js '','' @ LF # js ''  '') (map record_text data)
             @ LF # js '']'')"
proof -
  have gap: "replicate (min 2 10) (0x20 :: 16 word) = [0x20, 0x20]"
    by (simp add: numeral_2_eq_2)
  show ?thesis
    unfolding JSON_stringify_def data_value_def gap
    by (simp add: serialize_record Let_def js_def comp_def)
qed

lemma tokenize_record_text:
  "tokenize (record_text f @ rest) = map_option ((@) (record_tokens f)) (tokenize rest)"
proof -
  have sp: "is_json_space LF" "is_json_space 0x20"
    by (simp_all add: is_json_space_def LF_def)
  show ?thesis
    unfolding record_text_def record_tokens_def
    by (cases "tokenize rest")
       (simp_all add: js_def tokenize_punctuation tokenize_space sp tokenize_QuoteJSONString)
qed


lemma tokenize_records:
  "data \<noteq> [] \<Longrightarrow>
     tokenize (join (js '','' @ LF # js ''  '') (map record_text data) @ LF # js '']'')
       = Some (records_tokens data)"
proof (induction data rule: records_tokens.induct)
  case 1
  then show ?case by simp
next
  case (2 f)
  have "tokenize (LF # js '']'') = Some [RBRACKET]"
    by (simp add: js_def tokenize_punctuation tokenize_space is_json_space_def LF_def
        tokenize.simps(1))
  then show ?case
    by (simp add: tokenize_record_text)
next
  case (3 f g fs)
  then have "tokenize (join (js '','' @ LF # js ''  '') (map record_text (g # fs)) @ LF # js '']'')
      = Some (records_tokens (g # fs))"
    by simp
  then have "tokenize ((js '','' @ LF # js ''  '')
        @ join (js '','' @ LF # js ''  '') (map record_text (g # fs)) @ LF # js '']'')
      = Some (COMMA # records_tokens (g # fs))"
    by (simp add: js_def tokenize_punctuation tokenize_space is_json_space_def LF_def)
  then show ?case
    by (simp add: tokenize_record_text)
qed

lemma tokenize_export:
  "tokenize (JSON_stringify (data_value data) 2) =
     Some (if data = [] then [LBRACKET, RBRACKET] else LBRACKET # records_tokens data)"
proof (cases "data = []")
  case True
  then show ?thesis
    by (simp add: stringify_data js_def tokenize_punctuation tokenize.simps(1))
next
  case False
  then have "tokenize (js ''['' @ LF # js ''  ''
      @ join (js '','' @ LF # js ''  '') (map record_text data) @ LF # js '']'')
    = Some (LBRACKET # records_tokens data)"
    using tokenize_records [OF False]
    by (simp add: js_def tokenize_punctuation tokenize_space is_json_space_def LF_def)
  with False show ?thesis
    by (simp only: stringify_data if_False)
qed

lemma parse_value_string: "parse_value (Suc n) (STRING s # ts) = Some (JString s, ts)"
  by simp

lemma parse_value_empty_array:
  "parse_value (Suc n) (LBRACKET # RBRACKET # ts) = Some (JArray [], ts)"
  by simp

lemma parse_value_array:
  "parse_elements n (LBRACE # ts) = Some (vs, rest) \<Longrightarrow>
     parse_value (Suc n) (LBRACKET # LBRACE # ts) = Some (JArray vs, rest)"
  by simp

lemma parse_value_object:
  "parse_members n (STRING k # ts) = Some (ms, rest) \<Longrightarrow>
     parse_value (Suc n) (LBRACE # STRING k # ts) = Some (JObject ms, rest)"
  by simp

lemma parse_members_more:
  "parse_value n ts = Some (v, COMMA # ts') \<Longrightarrow> parse_members n ts' = Some (ms, rest) \<Longrightarrow>
     parse_members (Suc n) (STRING k # COLON # ts) = Some ((k, v) # ms, rest)"
  by simp

lemma parse_members_last:
  "parse_value n ts = Some (v, RBRACE # ts') \<Longrightarrow>
     parse_members (Suc n) (STRING k # COLON # ts) = Some ([(k, v)], ts')"
  by simp

lemma parse_elements_more:
  "parse_value n ts = Some (v, COMMA # ts') \<Longrightarrow> parse_elements n ts' = Some (vs, rest) \<Longrightarrow>
     parse_elements (Suc n) ts = Some (v # vs, rest)"
  by simp

lemma parse_elements_last:
  "parse_value n ts = Some (v, RBRACKET # ts') \<Longrightarrow> parse_elements (Suc n) ts = Some ([v], ts')"
  by simp

declare parse_value.simps [simp del] parse_elements.simps [simp del]
  parse_members.simps [simp del]

lemma parse_record:
  "parse_value (Suc (Suc (Suc (Suc n)))) (record_tokens f @ ts) = Some (record_value f, ts)"
proof -
  have "parse_members (Suc (Suc n))
        (STRING (js ''content'') # COLON # STRING (content f) # RBRACE # ts)
      = Some ([(js ''content'', JString (content f))], ts)"
    by (rule parse_members_last [OF parse_value_string])
  then have "parse_members (Suc (Suc (Suc n)))
        (STRING (js ''fileName'') # COLON # STRING (fileName f) # COMMA
          # STRING (js ''content'') # COLON # STRING (content f) # RBRACE # ts)
      = Some ([(js ''fileName'', JString (fileName f)), (js ''content'', JString (content f))], ts)"
    by (rule parse_members_more [OF parse_value_string])
  then show ?thesis
    unfolding record_tokens_def record_value_def
    by (simp add: parse_value_object)
qed

lemma parse_elements_records:
  "data \<noteq> [] \<Longrightarrow>
     parse_elements (Suc (Suc (Suc (Suc (length data + n))))) (records_tokens data @ ts)
       = Some (map record_value data, ts)"
proof (induction data arbitrary: n rule: records_tokens.induct)
  case 1
  then show ?case by simp
next
  case (2 f)
  have "parse_value (Suc (Suc (Suc (Suc n)))) (record_tokens f @ RBRACKET # ts)
      = Some (record_value f, RBRACKET # ts)"
    by (rule parse_record)
  then have "parse_elements (Suc (Suc (Suc (Suc (Suc n))))) (record_tokens f @ RBRACKET # ts)
      = Some ([record_value f], ts)"
    by (rule parse_elements_last)
  then show ?case by simp
next
  case (3 f g fs)
  have "parse_value (Suc (Suc (Suc (Suc (Suc (length fs + n))))))
          (record_tokens f @ COMMA # records_tokens (g # fs) @ ts)
      = Some (record_value f, COMMA # records_tokens (g # fs) @ ts)"
    by (rule parse_record)
  moreover have "parse_elements (Suc (Suc (Suc (Suc (length (g # fs) + n)))))
          (records_tokens (g # fs) @ ts) = Some (map record_value (g # fs), ts)"
    by (rule "3.IH") simp
  then have "parse_elements (Suc (Suc (Suc (Suc (Suc (length fs + n))))))
          (records_tokens (g # fs) @ ts) = Some (map record_value (g # fs), ts)"
    by simp
  ultimately have "parse_elements (Suc (Suc (Suc (Suc (Suc (Suc (length fs + n)))))))
          (record_tokens f @ COMMA # records_tokens (g # fs) @ ts)
      = Some (record_value f # map record_value (g # fs), ts)"
    by (rule parse_elements_more)
  then show ?case by simp
qed

lemma length_records_tokens: "data \<noteq> [] \<Longrightarrow> length (records_tokens data) = 10 * length data"
  by (induction data rule: records_tokens.induct) (simp_all add: record_tokens_def)

lemma parse_export_tokens:
  assumes "data \<noteq> []"
  shows "parse_value (length (LBRACKET # records_tokens data)) (LBRACKET # records_tokens data)
           = Some (data_value data, [])"
proof -
  from assms obtain f fs where data: "data = f # fs"
    by (cases data) auto
  obtain r where r: "records_tokens data = LBRACE # r"
    unfolding data by (cases fs) (simp_all add: record_tokens_def)
  have fuel: "10 * length data = Suc (Suc (Suc (Suc (length data + (5 + 9 * length fs)))))"
    by (simp add: data)
  have "parse_elements (Suc (Suc (Suc (Suc (length data + (5 + 9 * length fs))))))
          (records_tokens data @ []) = Some (map record_value data, [])"
    using assms by (rule parse_elements_records)
  then have "parse_elements (10 * length data) (LBRACE # r) = Some (map record_value data, [])"
    by (simp only: fuel [symmetric] append_Nil2 r)
  then have "parse_value (Suc (10 * length data)) (LBRACKET # LBRACE # r)
      = Some (JArray (map record_value data), [])"
    by (rule parse_value_array)
  then show ?thesis
    by (simp add: length_records_tokens [OF assms] r [symmetric] data_value_def)
qed

lemma JSON_parse_export:
  "JSON_parse (JSON_stringify (data_value data) 2) = Some (data_value data)"
proof (cases "data = []")
  case True
  have "tokenize (JSON_stringify (JArray []) 2) = Some [LBRACKET, RBRACKET]"
    using tokenize_export [of "[]"] by (simp add: data_value_def)
  moreover have "parse_value (length [LBRACKET, RBRACKET]) [LBRACKET, RBRACKET]
      = Some (JArray [], [])"
    by (simp add: parse_value_empty_array)
  ultimately show ?thesis
    by (simp add: JSON_parse_def True data_value_def)
next
  case False
  then show ?thesis
    using parse_export_tokens [OF False]
    by (simp add: JSON_parse_def tokenize_export)
qed

text \<open>
  C6, as the code has it. The JSON export is the serialisation with an indentation of
  two spaces of the array of the records, each an object with the keys \<^verbatim>\<open>fileName\<close>
  and \<^verbatim>\<open>content\<close> in this order: a bracket, then one object per record, indented by two
  spaces and separated by a comma and a line feed, with each property on a line of its
  own indented by four spaces. Parsing the export gives back the array of these
  objects: the records in their order, with both keys and both strings as they were.
\<close>

theorem JSON_export_round_trip:
  "getExportOutput (js ''json'') data =
     JSON_stringify
       (JArray (map (\<lambda>f. JObject [(js ''fileName'', JString (fileName f)),
                                   (js ''content'', JString (content f))]) data)) 2
   \<and> getExportOutput (js ''json'') data =
       (if data = [] then js ''[]''
        else js ''['' @ LF # js ''  '' @ join (js '','' @ LF # js ''  '') (map record_text data)
               @ LF # js '']'')
   \<and> JSON_parse (getExportOutput (js ''json'') data) =
       Some (JArray (map (\<lambda>f. JObject [(js ''fileName'', JString (fileName f)),
                                         (js ''content'', JString (content f))]) data))"
proof -
  have shape: "data_value data =
      JArray (map (\<lambda>f. JObject [(js ''fileName'', JString (fileName f)),
                                  (js ''content'', JString (content f))]) data)"
    by (simp add: data_value_def record_value_def [abs_def])
  have export: "getExportOutput (js ''json'') data = JSON_stringify (data_value data) 2"
    by (simp add: getExportOutput_def)
  have parsed: "JSON_parse (getExportOutput (js ''json'') data) = Some (data_value data)"
    by (simp only: export JSON_parse_export)
  have printed: "getExportOutput (js ''json'') data =
       (if data = [] then js ''[]''
        else js ''['' @ LF # js ''  '' @ join (js '','' @ LF # js ''  '') (map record_text data)
               @ LF # js '']'')"
    by (simp only: export stringify_data)
  from export parsed printed show ?thesis
    unfolding shape by (intro conjI)
qed

text \<open>
  C6, as the claim has it: for the record with the name \<^verbatim>\<open>a.txt\<close> and the content
  \<^verbatim>\<open>hi\<close>, parsing the export does not give the \<^verbatim>\<open>{name, content}\<close> pair.
\<close>

theorem JSON_export_not_name_pairs:
  "JSON_parse (getExportOutput (js ''json'') [\<lparr>fileName = js ''a.txt'', content = js ''hi''\<rparr>])
     \<noteq> Some (JArray (map pair_value [\<lparr>fileName = js ''a.txt'', content = js ''hi''\<rparr>]))"
proof -
  let ?data = "[\<lparr>fileName = js ''a.txt'', content = js ''hi''\<rparr>]"
  have export: "getExportOutput (js ''json'') ?data = JSON_stringify (data_value ?data) 2"
    by (simp add: getExportOutput_def)
  have "JSON_parse (getExportOutput (js ''json'') ?data) = Some (data_value ?data)"
    by (simp only: export JSON_parse_export)
  then show ?thesis
    by (simp add: data_value_def record_value_def pair_value_def js_def)
qed


end
